theory Spec2Isabelle
  imports Complex_Main
begin

section \<open>Data model\<close>

text \<open>
  The notebook works on one pandas table, \<^verbatim>\<open>links\<close>: one row per directed link
  and mode, with the columns \<^verbatim>\<open>a\<close>, \<^verbatim>\<open>b\<close>, \<^verbatim>\<open>mode\<close>, \<^verbatim>\<open>dist\<close>, \<^verbatim>\<open>time\<close>
  and, from cell 39 on, \<^verbatim>\<open>cap\<close>, \<^verbatim>\<open>volumes\<close>, \<^verbatim>\<open>time_2\<close>. A row is read by column
  name (\<^verbatim>\<open>row['time']\<close>), so a row is a map from column names to cells and the table is
  the list of its rows in index order. A cell holds a number or a string (the
  \<^verbatim>\<open>mode\<close> column holds \<^verbatim>\<open>'car'\<close> and \<^verbatim>\<open>'rail'\<close>).

  Numbers are real numbers: the theory describes the arithmetic of the formulas, not
  the rounding, overflow or underflow of binary floating point. The theorems are
  therefore about which expression the code evaluates, which columns it writes and
  which exceptions it raises; none of them states an order or a bound between computed
  numbers.
\<close>

datatype py_error = KeyError | IndexError | TypeError | ZeroDivisionError

datatype cell = Num real | Str string

type_synonym row = "string \<rightharpoonup> cell"

type_synonym frame = "row list"

text \<open>A comprehension whose element expression may raise: the first exception ends it.\<close>

fun comprehension :: "('a \<Rightarrow> py_error + 'b) \<Rightarrow> 'a list \<Rightarrow> py_error + 'b list" where
  "comprehension f [] = Inr []"
| "comprehension f (x # xs) =
     (case f x of
        Inl e \<Rightarrow> Inl e
      | Inr y \<Rightarrow> (case comprehension f xs of Inl e \<Rightarrow> Inl e | Inr ys \<Rightarrow> Inr (y # ys)))"

text \<open>Python's \<^verbatim>\<open>sum(xs)\<close>: start at 0 and add from the left.\<close>

definition py_sum :: "real list \<Rightarrow> real" where
  "py_sum xs = foldl (+) 0 xs"

section \<open>Step 1: the multinomial logit\<close>

text \<open>
  \<^verbatim>\<open>
  def mnl(od_pair, los_col_names=['time'], beta=[1.5]):
      v = [- sum([row[los_col_names[i]] * beta[i]
                  for i in range(len(los_col_names))]
                ) for _, row in od_pair.iterrows()]
      p = [np.exp(val) / sum([np.exp(m) for m in v])
           for val in v]
      return p
  \<close>
  The inner comprehension walks \<^verbatim>\<open>los_col_names\<close> and \<^verbatim>\<open>beta\<close> by the same index
  \<^verbatim>\<open>i\<close>, which is a parallel walk down both lists. At each index the row lookup comes
  first (a missing column is a KeyError), then \<^verbatim>\<open>beta[i]\<close> (a list that is too short
  is an IndexError), then the product (a string cell times a float is a TypeError). A
  \<^verbatim>\<open>beta\<close> longer than \<^verbatim>\<open>los_col_names\<close> is not an error: its tail is never read.
  The weights are floats, as the default \<^verbatim>\<open>[1.5]\<close> is; with an int weight Python
  would repeat a string cell and fail later, which the theorems below never meet, their
  cells being numbers.
\<close>

fun los_terms :: "row \<Rightarrow> string list \<Rightarrow> real list \<Rightarrow> py_error + real list" where
  "los_terms r [] beta = Inr []"
| "los_terms r (c # cs) beta =
     (case r c of
        None \<Rightarrow> Inl KeyError
      | Some x \<Rightarrow>
          (case beta of
             [] \<Rightarrow> Inl IndexError
           | b # bs \<Rightarrow>
               (case x of
                  Str s \<Rightarrow> Inl TypeError
                | Num a \<Rightarrow>
                    (case los_terms r cs bs of
                       Inl e \<Rightarrow> Inl e
                     | Inr ts \<Rightarrow> Inr (a * b # ts)))))"

definition utility :: "string list \<Rightarrow> real list \<Rightarrow> row \<Rightarrow> py_error + real" where
  "utility los_col_names beta r =
     (case los_terms r los_col_names beta of
        Inl e \<Rightarrow> Inl e
      | Inr ts \<Rightarrow> Inr (- py_sum ts))"

text \<open>
  The denominator \<^verbatim>\<open>sum([np.exp(m) for m in v])\<close> is evaluated once per element of
  \<^verbatim>\<open>v\<close>, so it is never evaluated for an empty \<^verbatim>\<open>v\<close>. Numerator and denominator
  are numpy floats, whose division raises nothing, so the division has no error branch.
\<close>

definition mnl :: "frame \<Rightarrow> string list \<Rightarrow> real list \<Rightarrow> py_error + real list" where
  "mnl od_pair los_col_names beta =
     (case comprehension (utility los_col_names beta) od_pair of
        Inl e \<Rightarrow> Inl e
      | Inr v \<Rightarrow> Inr (map (\<lambda>val. exp val / py_sum (map exp v)) v))"

text \<open>
  The specification's formulas, written after its words, to compare \<open>mnl\<close> with:
  the utility \<open>v_i = - \<Sum>_k weight_k * attribute_k(link_i)\<close> and the probability
  \<open>p_i = exp(v_i) / \<Sum>_j exp(v_j)\<close>.
\<close>

definition attribute :: "row \<Rightarrow> string \<Rightarrow> real" where
  "attribute r c = (case r c of Some (Num x) \<Rightarrow> x | _ \<Rightarrow> 0)"

definition spec_utility :: "string list \<Rightarrow> real list \<Rightarrow> row \<Rightarrow> real" where
  "spec_utility cs ws r = - (\<Sum>k<length cs. ws ! k * attribute r (cs ! k))"

definition spec_probability :: "string list \<Rightarrow> real list \<Rightarrow> frame \<Rightarrow> nat \<Rightarrow> real" where
  "spec_probability cs ws g i =
     exp (spec_utility cs ws (g ! i)) / (\<Sum>j<length g. exp (spec_utility cs ws (g ! j)))"

definition numeric_on :: "string list \<Rightarrow> row \<Rightarrow> bool" where
  "numeric_on cs r = list_all (\<lambda>c. case r c of Some (Num x) \<Rightarrow> True | _ \<Rightarrow> False) cs"

section \<open>Step 5: capacities and congestion\<close>

text \<open>
  \<^verbatim>\<open>
  def travel_time(volumes, capacity, time):
      return 0.5 * time * np.exp(volumes / capacity)
  \<close>
  The function has no check of its arguments. The notebook calls it on the cells of a
  row that \<^verbatim>\<open>iterrows\<close> yields; on a table with a string column these are Python
  floats, and a Python float divided by zero raises ZeroDivisionError. (Called on numpy
  scalars the division would give an infinity or a NaN with a warning; no theorem below
  depends on the zero branch.)
\<close>

definition travel_time :: "real \<Rightarrow> real \<Rightarrow> real \<Rightarrow> py_error + real" where
  "travel_time volumes capacity time =
     (if capacity = 0 then Inl ZeroDivisionError
      else Inr (0.5 * time * exp (volumes / capacity)))"

text \<open>
  \<^verbatim>\<open>
  links['time_2'] = [travel_time(row['volumes'], row['cap'], row['time'])
                     if row['mode']=='car' else row['time']
                     for _, row in links.iterrows()]
  \<close>
  The condition is evaluated first. For a car row the three arguments are looked up
  from left to right, and a string among them fails in the arithmetic of
  \<^verbatim>\<open>travel_time\<close>; any other row yields its \<^verbatim>\<open>time\<close> cell as it is. The new
  column is assigned only after the whole list has been built.
\<close>

definition time_2_entry :: "row \<Rightarrow> py_error + cell" where
  "time_2_entry r =
     (case r ''mode'' of
        None \<Rightarrow> Inl KeyError
      | Some m \<Rightarrow>
          if m = Str ''car'' then
            (case r ''volumes'' of
               None \<Rightarrow> Inl KeyError
             | Some v \<Rightarrow>
                 (case r ''cap'' of
                    None \<Rightarrow> Inl KeyError
                  | Some c \<Rightarrow>
                      (case r ''time'' of
                         None \<Rightarrow> Inl KeyError
                       | Some t \<Rightarrow>
                           (case (v, c, t) of
                              (Num volumes, Num capacity, Num time) \<Rightarrow>
                                (case travel_time volumes capacity time of
                                   Inl e \<Rightarrow> Inl e
                                 | Inr t2 \<Rightarrow> Inr (Num t2))
                            | _ \<Rightarrow> Inl TypeError))))
          else
            (case r ''time'' of None \<Rightarrow> Inl KeyError | Some t \<Rightarrow> Inr t))"

definition set_column :: "string \<Rightarrow> frame \<Rightarrow> cell list \<Rightarrow> frame" where
  "set_column c links vs = map (\<lambda>(r, v). r(c \<mapsto> v)) (zip links vs)"

definition congestion_step :: "frame \<Rightarrow> py_error + frame" where
  "congestion_step links =
     (case comprehension time_2_entry links of
        Inl e \<Rightarrow> Inl e
      | Inr vs \<Rightarrow> Inr (set_column ''time_2'' links vs))"

section \<open>The iteration loop\<close>

text \<open>
  \<^verbatim>\<open>
  for j in range(10):
      # Probabilities
      
      # New volumes
      links['volumes_2'] = 
      # New travel times
      links['time_2'] = 
      print('Iteration {} av. mode shares: car {}; rail {}'.format(
          j, links.loc[links['mode']=='car', 'probs_4'].mean(),
          links.loc[links['mode']=='rail', 'probs_4'].mean()))
  \<close>
  The notebook fixes the loop, the columns a round assigns (\<^verbatim>\<open>probs_4\<close>,
  \<^verbatim>\<open>volumes_2\<close>, \<^verbatim>\<open>time_2\<close>) and the line it prints. The right-hand sides of the
  three updates are blank, left to the learner; they are modelled from sections 4.2 and
  4.4 of the specification, with the lookups written as the notebook writes them
  elsewhere (cells 39 and 41).

  Cell 43 creates the columns \<^verbatim>\<open>probs_4\<close> and \<^verbatim>\<open>volumes_2\<close> beforehand, filled
  with NaN; a round assigns each of them before its own statements read it, so the
  model does not ask for them in the table it starts from (a scenario that names one
  of them as an attribute of the mode choice has to supply it).

  What a scenario supplies to the round: the attribute names and weights of the mode
  choice, the translation of node numbers to names (cell 30) and the demand matrix
  (cell 28).
\<close>

record scenario =
  los_names :: "string list"
  weights :: "real list"
  name_dict :: "cell \<rightharpoonup> string"
  od_matrix :: "string \<times> string \<rightharpoonup> real"

text \<open>
  Modelled from the spec: the group of a row, which the blank statements of cell 44 have
  to form. Section 3: "the set of links sharing the same (origin, destination)"; the
  rows are kept in table order.
\<close>

definition od_group :: "frame \<Rightarrow> row \<Rightarrow> frame" where
  "od_group links r = filter (\<lambda>r'. r' ''a'' = r ''a'' \<and> r' ''b'' = r ''b'') links"

text \<open>
  Modelled from the spec: the right-hand side of the \<^verbatim>\<open>probs_4\<close> update, blank in
  cell 44. Section 4.4, step 1: "recompute mode-choice probabilities per OD-mode group
  using the current time (and other LoS) attributes". \<open>mnl\<close> is run on the group of
  row \<open>i\<close>, and the row receives the probability at its own position in the group,
  which is the number of group members above it.
\<close>

definition probs_4_entry :: "scenario \<Rightarrow> frame \<Rightarrow> nat \<Rightarrow> py_error + cell" where
  "probs_4_entry sc links i =
     (let r = links ! i in
      case r ''a'' of
        None \<Rightarrow> Inl KeyError
      | Some a \<Rightarrow>
          (case r ''b'' of
             None \<Rightarrow> Inl KeyError
           | Some b \<Rightarrow>
               (case mnl (od_group links r) (los_names sc) (weights sc) of
                  Inl e \<Rightarrow> Inl e
                | Inr p \<Rightarrow> Inr (Num (p ! length (od_group (take i links) r))))))"

text \<open>
  Modelled from the spec: the right-hand side of the \<^verbatim>\<open>volumes_2\<close> update, blank in
  cell 44. Section 4.2: "volume(link) = demand(origin_name(link),
  destination_name(link)) * probability(link)", a missing entry being "a reportable
  lookup error, not silently zero". The demand is looked up as cell 39 does,
  \<^verbatim>\<open>od_matrix.loc[(name_dict[row['a']], name_dict[row['b']]), 'volumes']\<close>.
\<close>

definition volumes_2_entry :: "scenario \<Rightarrow> row \<Rightarrow> py_error + cell" where
  "volumes_2_entry sc r =
     (case r ''a'' of
        None \<Rightarrow> Inl KeyError
      | Some a \<Rightarrow>
          (case name_dict sc a of
             None \<Rightarrow> Inl KeyError
           | Some origin \<Rightarrow>
               (case r ''b'' of
                  None \<Rightarrow> Inl KeyError
                | Some b \<Rightarrow>
                    (case name_dict sc b of
                       None \<Rightarrow> Inl KeyError
                     | Some destination \<Rightarrow>
                         (case od_matrix sc (origin, destination) of
                            None \<Rightarrow> Inl KeyError
                          | Some demand \<Rightarrow>
                              (case r ''probs_4'' of
                                 None \<Rightarrow> Inl KeyError
                               | Some (Str s) \<Rightarrow> Inl TypeError
                               | Some (Num p) \<Rightarrow> Inr (Num (demand * p))))))))"

text \<open>
  Modelled from the spec: the right-hand side of the \<^verbatim>\<open>time_2\<close> update, blank in
  cell 44. Section 4.4, step 3: "recompute congested time for the congestible mode via
  CongestionModel using the new volumes and the capacity". This is the expression of
  cell 41 with the new volumes, \<^verbatim>\<open>row['volumes_2']\<close>, in the place of
  \<^verbatim>\<open>row['volumes']\<close>.
\<close>

definition time_2_entry_new :: "row \<Rightarrow> py_error + cell" where
  "time_2_entry_new r = time_2_entry (r(''volumes'' := r ''volumes_2''))"

text \<open>
  Modelled from the spec: the three updates of one round, in the order of the cell. Each right-hand side is
  evaluated on the table as the statements before it have left it, and a column is
  assigned once its whole list is built. (Step 2 of section 4.4 also names the
  passenger-kilometres; the cell has no statement for them.)
\<close>

definition round_update :: "scenario \<Rightarrow> frame \<Rightarrow> py_error + frame" where
  "round_update sc links =
     (case comprehension (probs_4_entry sc links) [0..<length links] of
        Inl e \<Rightarrow> Inl e
      | Inr ps \<Rightarrow>
          (case comprehension (volumes_2_entry sc) (set_column ''probs_4'' links ps) of
             Inl e \<Rightarrow> Inl e
           | Inr vs \<Rightarrow>
               (case comprehension time_2_entry_new
                       (set_column ''volumes_2'' (set_column ''probs_4'' links ps) vs) of
                  Inl e \<Rightarrow> Inl e
                | Inr ts \<Rightarrow>
                    Inr (set_column ''time_2''
                           (set_column ''volumes_2'' (set_column ''probs_4'' links ps) vs) ts))))"

text \<open>
  The printed line reads two columns of the table:
  \<^verbatim>\<open>links.loc[links['mode']=='car', 'probs_4'].mean()\<close>. A column that is missing is a
  KeyError; the mean of a selection with a string in it is a TypeError; the mean of an
  empty selection is NaN, which is no exception and is recorded as \<open>None\<close>.
\<close>

definition column :: "string \<Rightarrow> frame \<Rightarrow> py_error + cell list" where
  "column c links =
     comprehension (\<lambda>r. case r c of None \<Rightarrow> Inl KeyError | Some x \<Rightarrow> Inr x) links"

definition number :: "cell \<Rightarrow> py_error + real" where
  "number x = (case x of Num a \<Rightarrow> Inr a | Str s \<Rightarrow> Inl TypeError)"

definition mode_mean :: "string \<Rightarrow> frame \<Rightarrow> py_error + real option" where
  "mode_mean m links =
     (case column ''mode'' links of
        Inl e \<Rightarrow> Inl e
      | Inr modes \<Rightarrow>
          (case column ''probs_4'' links of
             Inl e \<Rightarrow> Inl e
           | Inr probs \<Rightarrow>
               (case comprehension number
                       (map snd (filter (\<lambda>(mo, p). mo = Str m) (zip modes probs))) of
                  Inl e \<Rightarrow> Inl e
                | Inr xs \<Rightarrow>
                    Inr (if xs = [] then None else Some (py_sum xs / real (length xs))))))"

text \<open>
  One round: the three updates, then the line. The state is the table and the lines
  printed so far; a line is the iteration number and the two means it shows.
\<close>

type_synonym line = "nat \<times> real option \<times> real option"

type_synonym loop_state = "frame \<times> line list"

definition one_round :: "scenario \<Rightarrow> nat \<Rightarrow> loop_state \<Rightarrow> py_error + loop_state" where
  "one_round sc j s =
     (case round_update sc (fst s) of
        Inl e \<Rightarrow> Inl e
      | Inr links \<Rightarrow>
          (case mode_mean ''car'' links of
             Inl e \<Rightarrow> Inl e
           | Inr car \<Rightarrow>
               (case mode_mean ''rail'' links of
                  Inl e \<Rightarrow> Inl e
                | Inr rail \<Rightarrow> Inr (links, snd s @ [(j, car, rail)]))))"

text \<open>\<^verbatim>\<open>for j in range(n)\<close>, with \<open>j\<close> the next value of the loop variable.\<close>

function for_range :: "nat \<Rightarrow> nat \<Rightarrow> (nat \<Rightarrow> 's \<Rightarrow> py_error + 's) \<Rightarrow> 's \<Rightarrow> py_error + 's" where
  "for_range j n f s =
     (if j < n then
        (case f j s of Inl e \<Rightarrow> Inl e | Inr s' \<Rightarrow> for_range (Suc j) n f s')
      else Inr s)"
  by pat_completeness auto
termination
  by (relation "measure (\<lambda>(j, n, f, s). n - j)") auto

definition iteration :: "nat \<Rightarrow> scenario \<Rightarrow> loop_state \<Rightarrow> py_error + loop_state" where
  "iteration n sc s = for_range 0 n (one_round sc) s"

definition exercise_rounds :: nat where
  "exercise_rounds = 10"

text \<open>
  The table after \<open>k\<close> rounds of updates, counted one by one and without the loop: what
  "the state after the final round" is compared with.
\<close>

fun after_rounds :: "scenario \<Rightarrow> nat \<Rightarrow> frame \<Rightarrow> py_error + frame" where
  "after_rounds sc 0 links = Inr links"
| "after_rounds sc (Suc k) links =
     (case round_update sc links of
        Inl e \<Rightarrow> Inl e
      | Inr links' \<Rightarrow> after_rounds sc k links')"

text \<open>
  The tables on which no statement of a round raises: the weights match the attribute
  names, and every row has numeric attributes, a mode, a numeric free-flow time, its
  endpoints named and their demand listed, and, on a car row, a numeric capacity other
  than zero.
\<close>

definition well_formed_row :: "scenario \<Rightarrow> row \<Rightarrow> bool" where
  "well_formed_row sc r \<longleftrightarrow>
     numeric_on (los_names sc) r
   \<and> (case r ''mode'' of None \<Rightarrow> False | Some m \<Rightarrow> True)
   \<and> (case r ''time'' of Some (Num t) \<Rightarrow> True | _ \<Rightarrow> False)
   \<and> (if r ''mode'' = Some (Str ''car'')
      then (case r ''cap'' of Some (Num c) \<Rightarrow> c \<noteq> 0 | _ \<Rightarrow> False) else True)
   \<and> (case r ''a'' of
        None \<Rightarrow> False
      | Some a \<Rightarrow>
          (case name_dict sc a of
             None \<Rightarrow> False
           | Some origin \<Rightarrow>
               (case r ''b'' of
                  None \<Rightarrow> False
                | Some b \<Rightarrow>
                    (case name_dict sc b of
                       None \<Rightarrow> False
                     | Some destination \<Rightarrow> od_matrix sc (origin, destination) \<noteq> None))))"

definition well_formed :: "scenario \<Rightarrow> frame \<Rightarrow> bool" where
  "well_formed sc links \<longleftrightarrow>
     length (weights sc) = length (los_names sc) \<and> list_all (well_formed_row sc) links"

section \<open>Example data\<close>

text \<open>The two parallel links of the specification's end-to-end example.\<close>

definition car_link :: row where
  "car_link = [''mode'' \<mapsto> Str ''car'', ''dist'' \<mapsto> Num 300, ''time'' \<mapsto> Num 3,
               ''cap'' \<mapsto> Num 500, ''volumes'' \<mapsto> Num 500]"

definition rail_link :: row where
  "rail_link = [''mode'' \<mapsto> Str ''rail'', ''dist'' \<mapsto> Num 300, ''time'' \<mapsto> Num 2,
                ''cap'' \<mapsto> Num 500, ''volumes'' \<mapsto> Num 500]"


text \<open>
  The same two links as a table for the loop: both run from node 0 to node 1, their
  congested times are those of cell 41, the mode choice looks at the congested time
  with weight 1.5, and the demand between the two nodes is 1000 trips.
\<close>

definition loop_links :: frame where
  "loop_links =
     [car_link(''a'' \<mapsto> Num 0, ''b'' \<mapsto> Num 1, ''time_2'' \<mapsto> Num (3 * exp 1 / 2)),
      rail_link(''a'' \<mapsto> Num 0, ''b'' \<mapsto> Num 1, ''time_2'' \<mapsto> Num 2)]"

definition loop_scenario :: scenario where
  "loop_scenario =
     \<lparr>los_names = [''time_2''], weights = [3 / 2],
      name_dict = [Num 0 \<mapsto> ''Berlin'', Num 1 \<mapsto> ''Hamburg''],
      od_matrix = [(''Berlin'', ''Hamburg'') \<mapsto> 1000]\<rparr>"

section \<open>Properties of the congestion function\<close>

text \<open>
  C2. The congested time is exactly \<open>0.5 * freeFlowTime * exp (volume / capacity)\<close>;
  at zero volume, for a positive capacity \<open>C\<close> and a free-flow time \<open>T \<ge> 0\<close>, it is
  \<open>0.5 * T\<close>, which for \<open>T > 0\<close> is not the free-flow time.
\<close>

theorem travel_time_formula:
  assumes "0 < C" and "0 \<le> T"
  shows "travel_time v C T = Inr (0.5 * T * exp (v / C))
       \<and> travel_time 0 C T = Inr (0.5 * T)
       \<and> (0 < T \<longrightarrow> travel_time 0 C T \<noteq> Inr T)"
  using assms by (simp add: travel_time_def)

theorem travel_time_formula_witness:
  "(0::real) < 2 \<and> (0::real) \<le> 3
   \<and> travel_time 4 2 3 = Inr (0.5 * 3 * exp (4 / 2))
   \<and> travel_time 0 2 3 = Inr (3 / 2)
   \<and> travel_time 0 2 3 \<noteq> Inr 3"
  using travel_time_formula [of 2 3 4] by simp

text \<open>
  C5 as stated fails: a negative capacity is not refused. With volume 1, capacity \<open>-1\<close>
  and free-flow time 2 the function returns the number \<open>exp (-1)\<close>.
\<close>

theorem travel_time_negative_capacity_counterexample:
  "travel_time 1 (- 1) 2 = Inr (exp (- 1))"
  by (simp add: travel_time_def)

text \<open>
  C5, amended. The function does not check its capacity: for every negative capacity it
  returns the value of the formula, \<open>0.5 * T * exp (v / C)\<close>, and no error.
\<close>

theorem travel_time_negative_capacity:
  assumes "C < 0"
  shows "travel_time v C T = Inr (0.5 * T * exp (v / C))"
  using assms by (simp add: travel_time_def)

theorem travel_time_negative_capacity_witness:
  "(- 1 :: real) < 0 \<and> travel_time 1 (- 1) 2 = Inr (0.5 * 2 * exp (1 / (- 1)))"
  using travel_time_negative_capacity [of "- 1" 1 2] by simp

section \<open>Properties of the multinomial logit\<close>

text \<open>
  C6 as stated fails: on a group of zero links both comprehensions are empty and the
  function returns the empty list.
\<close>

theorem mnl_empty_group_counterexample:
  "mnl [] [''time''] [3 / 2] = Inr []"
  by (simp add: mnl_def)

text \<open>
  C6, amended. On an empty group \<open>mnl\<close> returns the empty list of probabilities,
  whatever the attribute names and weights; no error is raised.
\<close>

theorem mnl_empty_group: "mnl [] los_col_names beta = Inr []"
  by (simp add: mnl_def)

lemma py_sum_sum_list: "py_sum xs = sum_list xs"
proof -
  have "foldl (+) a xs = a + sum_list xs" for a :: real
    by (induction xs arbitrary: a) simp_all
  then show ?thesis by (simp add: py_sum_def)
qed

lemma comprehension_Inr:
  "comprehension f xs = Inr ys \<longleftrightarrow> length ys = length xs \<and> (\<forall>i<length xs. f (xs ! i) = Inr (ys ! i))"
proof (induction xs arbitrary: ys)
  case Nil
  then show ?case by auto
next
  case (Cons x xs)
  show ?case
  proof (cases ys)
    case Nil
    then show ?thesis by (auto split: sum.splits)
  next
    case (Cons y ys')
    then show ?thesis
      using Cons.IH [of ys']
      by (auto split: sum.splits simp: nth_Cons less_Suc_eq_0_disj)
  qed
qed

lemma los_terms_numeric:
  "numeric_on cs r \<Longrightarrow> length beta = length cs \<Longrightarrow>
   los_terms r cs beta = Inr (map (\<lambda>k. attribute r (cs ! k) * beta ! k) [0..<length cs])"
proof (induction cs arbitrary: beta)
  case Nil
  then show ?case by simp
next
  case (Cons c cs)
  from Cons.prems obtain b bs where beta: "beta = b # bs" and len: "length bs = length cs"
    by (cases beta) auto
  from Cons.prems obtain a where a: "r c = Some (Num a)" and rest: "numeric_on cs r"
    by (auto simp: numeric_on_def split: option.splits cell.splits)
  have "map (\<lambda>k. attribute r ((c # cs) ! k) * (b # bs) ! k) [0..<length (c # cs)]
        = attribute r c * b # map (\<lambda>k. attribute r (cs ! k) * bs ! k) [0..<length cs]"
    by (simp add: upt_conv_Cons map_Suc_upt [symmetric] del: upt_Suc)
  with Cons.IH [OF rest len] a beta show ?case
    by (simp add: attribute_def)
qed

lemma utility_numeric:
  assumes "numeric_on cs r" and "length beta = length cs"
  shows "utility cs beta r = Inr (spec_utility cs beta r)"
proof -
  have "sum_list (map (\<lambda>k. attribute r (cs ! k) * beta ! k) [0..<length cs])
        = (\<Sum>k<length cs. beta ! k * attribute r (cs ! k))"
    by (simp add: interv_sum_list_conv_sum_set_nat atLeast0LessThan mult.commute)
  with los_terms_numeric [OF assms] show ?thesis
    by (simp add: utility_def spec_utility_def py_sum_sum_list)
qed

lemma mnl_numeric:
  assumes "list_all (numeric_on cs) g" and "length beta = length cs"
  shows "mnl g cs beta = Inr (map (spec_probability cs beta g) [0..<length g])"
proof -
  let ?v = "map (spec_utility cs beta) g"
  have "comprehension (utility cs beta) g = Inr ?v"
    using assms by (simp add: comprehension_Inr utility_numeric list_all_length)
  moreover have "py_sum (map exp ?v) = (\<Sum>j<length g. exp (spec_utility cs beta (g ! j)))"
    by (simp add: py_sum_sum_list sum_list_sum_nth atLeast0LessThan)
  ultimately have "mnl g cs beta
      = Inr (map (\<lambda>val. exp val / (\<Sum>j<length g. exp (spec_utility cs beta (g ! j)))) ?v)"
    by (simp add: mnl_def)
  moreover have "map (\<lambda>val. exp val / (\<Sum>j<length g. exp (spec_utility cs beta (g ! j)))) ?v
      = map (spec_probability cs beta g) [0..<length g]"
    by (rule nth_equalityI) (simp_all add: spec_probability_def)
  ultimately show ?thesis
    by simp
qed

text \<open>
  C1. For a non-empty group, attribute names and weights of equal length, and every
  named attribute numeric on every link, \<open>mnl\<close> returns one probability per link, in
  the order of the links, and the probability of link \<open>i\<close> is
  \<open>exp (v_i) / \<Sum>_j exp (v_j)\<close> with \<open>v_i = - \<Sum>_k weight_k * attribute_k (link_i)\<close>.
\<close>

theorem mnl_is_logit:
  assumes "od_pair \<noteq> []"
    and "length beta = length los_col_names"
    and "list_all (numeric_on los_col_names) od_pair"
  shows "\<exists>p. mnl od_pair los_col_names beta = Inr p
           \<and> length p = length od_pair
           \<and> (\<forall>i<length od_pair. p ! i = spec_probability los_col_names beta od_pair i)"
  using mnl_numeric [OF assms(3,2)] by simp

lemma example_numeric: "list_all (numeric_on [''time'']) [car_link, rail_link]"
  by (simp add: numeric_on_def car_link_def rail_link_def)

lemma list_of_two: "length p = 2 \<Longrightarrow> p = [p ! 0, p ! 1]"
  by (cases p; cases "tl p") auto

theorem mnl_is_logit_witness:
  "[car_link, rail_link] \<noteq> []
   \<and> length [3 / 2 :: real] = length [''time'']
   \<and> list_all (numeric_on [''time'']) [car_link, rail_link]
   \<and> mnl [car_link, rail_link] [''time''] [3 / 2]
       = Inr [exp (- (9 / 2)) / (exp (- (9 / 2)) + exp (- 3)),
              exp (- 3) / (exp (- (9 / 2)) + exp (- 3))]"
proof -
  have ne: "[car_link, rail_link] \<noteq> []" and len: "length [3 / 2 :: real] = length [''time'']"
    by simp_all
  from mnl_is_logit [OF ne len example_numeric]
  obtain p where run: "mnl [car_link, rail_link] [''time''] [3 / 2] = Inr p"
    and "length p = 2"
    and "p ! 0 = spec_probability [''time''] [3 / 2] [car_link, rail_link] 0"
    and "p ! 1 = spec_probability [''time''] [3 / 2] [car_link, rail_link] 1"
    by auto
  then have "p = [exp (- (9 / 2)) / (exp (- (9 / 2)) + exp (- 3)),
                  exp (- 3) / (exp (- (9 / 2)) + exp (- 3))]"
    using list_of_two [of p]
    by (simp add: spec_probability_def spec_utility_def attribute_def car_link_def rail_link_def
        lessThan_Suc numeral_2_eq_2)
  with run ne len example_numeric show ?thesis
    by simp
qed




section \<open>Properties of the congestion step\<close>

lemma set_column_nth:
  "length vs = length links \<Longrightarrow> i < length links \<Longrightarrow>
   set_column c links vs ! i = (links ! i)(c \<mapsto> vs ! i)"
  by (simp add: set_column_def)

lemma set_column_length:
  "length vs = length links \<Longrightarrow> length (set_column c links vs) = length links"
  by (simp add: set_column_def)

lemma time_2_entry_other:
  "time_2_entry r = Inr x \<Longrightarrow> r ''mode'' \<noteq> Some (Str ''car'') \<Longrightarrow> Some x = r ''time''"
  by (auto simp: time_2_entry_def split: option.splits if_splits)

lemma time_2_entry_car:
  assumes "time_2_entry r = Inr x" and "r ''mode'' = Some (Str ''car'')"
  shows "\<exists>v c t. r ''volumes'' = Some (Num v) \<and> r ''cap'' = Some (Num c) \<and> r ''time'' = Some (Num t)
            \<and> travel_time v c t = Inr (0.5 * t * exp (v / c)) \<and> x = Num (0.5 * t * exp (v / c))"
  using assms
  by (auto simp: time_2_entry_def travel_time_def split: option.splits cell.splits if_splits)

text \<open>
  C7. When the congestion step succeeds, the table keeps its rows, every column other
  than \<open>time_2\<close> (so \<open>dist\<close>, \<open>time\<close> and \<open>cap\<close>) of every row is unchanged, the
  \<open>time_2\<close> of every row whose mode is not \<open>car\<close> is its \<open>time\<close> cell, and only a
  \<open>car\<close> row gets the value of the congestion formula.
\<close>

theorem congestion_step_only_car:
  assumes "congestion_step links = Inr links'"
  shows "length links' = length links
       \<and> (\<forall>i<length links.
            (\<forall>c. c \<noteq> ''time_2'' \<longrightarrow> (links' ! i) c = (links ! i) c)
          \<and> ((links ! i) ''mode'' \<noteq> Some (Str ''car'') \<longrightarrow>
               (links' ! i) ''time_2'' = (links ! i) ''time'')
          \<and> ((links ! i) ''mode'' = Some (Str ''car'') \<longrightarrow>
               (\<exists>v c t. (links ! i) ''volumes'' = Some (Num v) \<and> (links ! i) ''cap'' = Some (Num c)
                  \<and> (links ! i) ''time'' = Some (Num t)
                  \<and> travel_time v c t = Inr (0.5 * t * exp (v / c))
                  \<and> (links' ! i) ''time_2'' = Some (Num (0.5 * t * exp (v / c))))))"
proof -
  from assms obtain vs where vs: "comprehension time_2_entry links = Inr vs"
    and new: "links' = set_column ''time_2'' links vs"
    by (auto simp: congestion_step_def split: sum.splits)
  from vs have len: "length vs = length links"
    and entry: "\<And>i. i < length links \<Longrightarrow> time_2_entry (links ! i) = Inr (vs ! i)"
    by (simp_all add: comprehension_Inr)
  have row: "links' ! i = (links ! i)(''time_2'' \<mapsto> vs ! i)" if "i < length links" for i
    unfolding new using len that by (rule set_column_nth)
  have "length links' = length links"
    unfolding new using len by (rule set_column_length)
  moreover have "(links' ! i) c = (links ! i) c" if "i < length links" and "c \<noteq> ''time_2''" for i c
    using row [OF that(1)] that(2) by simp
  moreover have "(links' ! i) ''time_2'' = (links ! i) ''time''"
    if "i < length links" and "(links ! i) ''mode'' \<noteq> Some (Str ''car'')" for i
    using row [OF that(1)] time_2_entry_other [OF entry [OF that(1)] that(2)] by simp
  moreover have "\<exists>v c t. (links ! i) ''volumes'' = Some (Num v) \<and> (links ! i) ''cap'' = Some (Num c)
                  \<and> (links ! i) ''time'' = Some (Num t)
                  \<and> travel_time v c t = Inr (0.5 * t * exp (v / c))
                  \<and> (links' ! i) ''time_2'' = Some (Num (0.5 * t * exp (v / c)))"
    if "i < length links" and "(links ! i) ''mode'' = Some (Str ''car'')" for i
    using row [OF that(1)] time_2_entry_car [OF entry [OF that(1)] that(2)] by auto
  ultimately show ?thesis
    by blast
qed

lemma example_congestion_step:
  "congestion_step [car_link, rail_link]
   = Inr [car_link(''time_2'' \<mapsto> Num (3 * exp 1 / 2)), rail_link(''time_2'' \<mapsto> Num 2)]"
  by (simp add: congestion_step_def time_2_entry_def travel_time_def set_column_def
      car_link_def rail_link_def)

theorem congestion_step_only_car_witness:
  "congestion_step [car_link, rail_link]
     = Inr [car_link(''time_2'' \<mapsto> Num (3 * exp 1 / 2)), rail_link(''time_2'' \<mapsto> Num 2)]
   \<and> (rail_link(''time_2'' \<mapsto> Num 2)) ''time_2'' = rail_link ''time''
   \<and> (rail_link(''time_2'' \<mapsto> Num 2)) ''dist'' = rail_link ''dist''
   \<and> (car_link(''time_2'' \<mapsto> Num (3 * exp 1 / 2))) ''time'' = car_link ''time''
   \<and> (car_link(''time_2'' \<mapsto> Num (3 * exp 1 / 2))) ''cap'' = car_link ''cap''"
  using congestion_step_only_car [OF example_congestion_step] example_congestion_step
  by (simp add: car_link_def rail_link_def)

section \<open>Properties of the iteration loop\<close>

lemma comprehension_all:
  assumes "\<And>x. x \<in> set xs \<Longrightarrow> \<exists>y. f x = Inr y \<and> P y"
  shows "\<exists>ys. comprehension f xs = Inr ys \<and> length ys = length xs \<and> list_all P ys"
  using assms
proof (induction xs)
  case Nil
  then show ?case by simp
next
  case (Cons x xs)
  from Cons.prems obtain y where y: "f x = Inr y" "P y"
    by auto
  from Cons obtain ys where "comprehension f xs = Inr ys" "length ys = length xs" "list_all P ys"
    by auto
  with y show ?case
    by simp
qed

lemma comprehension_InrD:
  assumes "comprehension f xs = Inr ys" and "x \<in> set xs"
  shows "\<exists>y. f x = Inr y"
  using assms by (auto simp: comprehension_Inr in_set_conv_nth)

lemma set_column_rows:
  assumes "r' \<in> set (set_column c links vs)"
  shows "\<exists>r v. r \<in> set links \<and> v \<in> set vs \<and> r' = r(c \<mapsto> v)"
proof -
  from assms obtain r v where "(r, v) \<in> set (zip links vs)" and "r' = r(c \<mapsto> v)"
    by (auto simp: set_column_def)
  then show ?thesis
    by (auto dest: set_zip_leftD set_zip_rightD)
qed

lemma numeric_on_update:
  "numeric_on cs r \<Longrightarrow> numeric_on cs (r(c \<mapsto> Num x))"
  by (auto simp: numeric_on_def list_all_iff)

lemma well_formed_row_update:
  assumes "well_formed_row sc r"
    and "c \<notin> {''mode'', ''time'', ''cap'', ''a'', ''b''}"
  shows "well_formed_row sc (r(c \<mapsto> Num x))"
proof -
  from assms(2) have same: "(r(c \<mapsto> Num x)) ''mode'' = r ''mode''"
    "(r(c \<mapsto> Num x)) ''time'' = r ''time''" "(r(c \<mapsto> Num x)) ''cap'' = r ''cap''"
    "(r(c \<mapsto> Num x)) ''a'' = r ''a''" "(r(c \<mapsto> Num x)) ''b'' = r ''b''"
    by auto
  from assms(1) have "numeric_on (los_names sc) (r(c \<mapsto> Num x))"
    by (simp add: well_formed_row_def numeric_on_update)
  with assms(1) show ?thesis
    unfolding well_formed_row_def same by simp
qed

lemma well_formed_rowD:
  assumes "well_formed sc links" and "r \<in> set links"
  shows "well_formed_row sc r"
  using assms by (simp add: well_formed_def list_all_iff)

text \<open>
  The position at which \<open>probs_4_entry\<close> reads the list that \<open>mnl\<close> returns lies
  inside that list, and the value read is the specification's probability of the row
  within its group.
\<close>

lemma od_group_position:
  assumes "i < length links"
  shows "length (od_group (take i links) (links ! i)) < length (od_group links (links ! i))"
proof -
  define xs where "xs = take i links"
  define ys where "ys = drop (Suc i) links"
  define r where "r = links ! i"
  have "links = xs @ r # ys"
    unfolding xs_def ys_def r_def using assms by (rule id_take_nth_drop)
  then have "od_group links r = od_group xs r @ r # od_group ys r"
    by (simp add: od_group_def)
  then show ?thesis
    unfolding xs_def r_def by simp
qed

lemma probs_4_entry_value:
  assumes "well_formed sc links" and "i < length links"
  shows "probs_4_entry sc links i
         = Inr (Num (spec_probability (los_names sc) (weights sc) (od_group links (links ! i))
                      (length (od_group (take i links) (links ! i)))))"
proof -
  let ?r = "links ! i"
  from assms have "well_formed_row sc ?r"
    by (simp add: well_formed_rowD)
  then obtain a b where ab: "?r ''a'' = Some a" "?r ''b'' = Some b"
    by (auto simp: well_formed_row_def split: option.splits)
  have "list_all (numeric_on (los_names sc)) (od_group links ?r)"
    using assms(1) by (auto simp: od_group_def list_all_iff well_formed_def well_formed_row_def)
  moreover from assms(1) have "length (weights sc) = length (los_names sc)"
    by (simp add: well_formed_def)
  ultimately have "mnl (od_group links ?r) (los_names sc) (weights sc)
      = Inr (map (spec_probability (los_names sc) (weights sc) (od_group links ?r))
               [0..<length (od_group links ?r)])"
    by (rule mnl_numeric)
  with ab od_group_position [OF assms(2)] show ?thesis
    by (simp add: probs_4_entry_def Let_def)
qed

lemma probs_4_entry_ok:
  assumes "well_formed sc links" and "i < length links"
  shows "\<exists>p. probs_4_entry sc links i = Inr (Num p)"
proof -
  let ?r = "links ! i"
  from assms have "well_formed_row sc ?r"
    by (simp add: well_formed_rowD)
  then obtain a b where ab: "?r ''a'' = Some a" "?r ''b'' = Some b"
    by (auto simp: well_formed_row_def split: option.splits)
  have "list_all (numeric_on (los_names sc)) (od_group links ?r)"
    using assms(1) by (auto simp: od_group_def list_all_iff well_formed_def well_formed_row_def)
  moreover from assms(1) have "length (weights sc) = length (los_names sc)"
    by (simp add: well_formed_def)
  ultimately obtain p where "mnl (od_group links ?r) (los_names sc) (weights sc) = Inr p"
    using mnl_numeric by blast
  with ab show ?thesis
    by (simp add: probs_4_entry_def)
qed

lemma volumes_2_entry_ok:
  assumes "well_formed_row sc r" and "r ''probs_4'' = Some (Num p)"
  shows "\<exists>v. volumes_2_entry sc r = Inr (Num v)"
  using assms
  by (auto simp: volumes_2_entry_def well_formed_row_def split: option.splits)

lemma time_2_entry_new_ok:
  assumes "well_formed_row sc r" and "r ''volumes_2'' = Some (Num v)"
  shows "\<exists>t. time_2_entry_new r = Inr (Num t)"
proof -
  from assms(1) obtain m t where m: "r ''mode'' = Some m" and t: "r ''time'' = Some (Num t)"
    by (auto simp: well_formed_row_def split: option.splits cell.splits)
  show ?thesis
  proof (cases "m = Str ''car''")
    case True
    with assms(1) m obtain c where "r ''cap'' = Some (Num c)" and "c \<noteq> 0"
      by (auto simp: well_formed_row_def split: option.splits cell.splits)
    with True m t assms(2) have "time_2_entry_new r = Inr (Num (0.5 * t * exp (v / c)))"
      by (simp add: time_2_entry_new_def time_2_entry_def travel_time_def)
    then show ?thesis
      by blast
  next
    case False
    with m t have "time_2_entry_new r = Inr (Num t)"
      by (simp add: time_2_entry_new_def time_2_entry_def)
    then show ?thesis
      by blast
  qed
qed

text \<open>On a well-formed table no statement of a round raises, and the table stays well-formed.\<close>

lemma round_update_ok:
  assumes wf: "well_formed sc links"
  shows "\<exists>links'. round_update sc links = Inr links'
           \<and> length links' = length links
           \<and> well_formed sc links'
           \<and> list_all (\<lambda>r. \<exists>p. r ''probs_4'' = Some (Num p)) links'"
proof -
  let ?num = "\<lambda>x. \<exists>a. x = Num a"
  from wf have len: "length (weights sc) = length (los_names sc)"
    by (simp add: well_formed_def)
  have "\<exists>ps. comprehension (probs_4_entry sc links) [0..<length links] = Inr ps
          \<and> length ps = length [0..<length links] \<and> list_all ?num ps"
    by (rule comprehension_all) (use probs_4_entry_ok [OF wf] in auto)
  then obtain ps where ps: "comprehension (probs_4_entry sc links) [0..<length links] = Inr ps"
    and ps_len: "length ps = length links" and ps_num: "list_all ?num ps"
    by auto
  define links1 where "links1 = set_column ''probs_4'' links ps"
  have rows1: "well_formed_row sc r' \<and> (\<exists>p. r' ''probs_4'' = Some (Num p))"
    if "r' \<in> set links1" for r'
  proof -
    from that obtain r x where "r \<in> set links" "x \<in> set ps" "r' = r(''probs_4'' \<mapsto> x)"
      unfolding links1_def by (blast dest: set_column_rows)
    moreover from this ps_num obtain a where "x = Num a"
      by (auto simp: list_all_iff)
    ultimately show ?thesis
      using well_formed_rowD [OF wf] by (auto intro: well_formed_row_update)
  qed
  have "\<exists>vs. comprehension (volumes_2_entry sc) links1 = Inr vs
          \<and> length vs = length links1 \<and> list_all ?num vs"
    by (rule comprehension_all) (use rows1 volumes_2_entry_ok in blast)
  then obtain vs where vs: "comprehension (volumes_2_entry sc) links1 = Inr vs"
    and vs_len: "length vs = length links1" and vs_num: "list_all ?num vs"
    by auto
  define links2 where "links2 = set_column ''volumes_2'' links1 vs"
  have rows2: "well_formed_row sc r' \<and> (\<exists>p. r' ''probs_4'' = Some (Num p))
               \<and> (\<exists>v. r' ''volumes_2'' = Some (Num v))"
    if "r' \<in> set links2" for r'
  proof -
    from that obtain r x where "r \<in> set links1" "x \<in> set vs" "r' = r(''volumes_2'' \<mapsto> x)"
      unfolding links2_def by (blast dest: set_column_rows)
    moreover from this vs_num obtain a where "x = Num a"
      by (auto simp: list_all_iff)
    ultimately show ?thesis
      using rows1 [of r] by (auto intro: well_formed_row_update)
  qed
  have "\<exists>ts. comprehension time_2_entry_new links2 = Inr ts
          \<and> length ts = length links2 \<and> list_all ?num ts"
    by (rule comprehension_all) (use rows2 time_2_entry_new_ok in blast)
  then obtain ts where ts: "comprehension time_2_entry_new links2 = Inr ts"
    and ts_len: "length ts = length links2" and ts_num: "list_all ?num ts"
    by auto
  define links3 where "links3 = set_column ''time_2'' links2 ts"
  have rows3: "well_formed_row sc r' \<and> (\<exists>p. r' ''probs_4'' = Some (Num p))"
    if "r' \<in> set links3" for r'
  proof -
    from that obtain r x where "r \<in> set links2" "x \<in> set ts" "r' = r(''time_2'' \<mapsto> x)"
      unfolding links3_def by (blast dest: set_column_rows)
    moreover from this ts_num obtain a where "x = Num a"
      by (auto simp: list_all_iff)
    ultimately show ?thesis
      using rows2 [of r] by (auto intro: well_formed_row_update)
  qed
  have "round_update sc links = Inr links3"
    using ps vs ts by (simp add: round_update_def links1_def links2_def links3_def)
  moreover have "length links3 = length links"
    using ps_len vs_len ts_len by (simp add: links1_def links2_def links3_def set_column_length)
  moreover have "well_formed sc links3"
    using rows3 len by (simp add: well_formed_def list_all_iff)
  moreover have "list_all (\<lambda>r. \<exists>p. r ''probs_4'' = Some (Num p)) links3"
    using rows3 by (simp add: list_all_iff)
  ultimately show ?thesis
    by blast
qed

lemma volumes_2_entry_InrD:
  "volumes_2_entry sc r = Inr y \<Longrightarrow> \<exists>p. r ''probs_4'' = Some (Num p)"
  by (auto simp: volumes_2_entry_def split: option.splits cell.splits)

lemma time_2_entry_new_InrD:
  "time_2_entry_new r = Inr y \<Longrightarrow> r ''mode'' \<noteq> None"
  by (auto simp: time_2_entry_new_def time_2_entry_def split: option.splits)

text \<open>
  After the three updates the print statement finds its two columns, on any table: the
  updates themselves have read \<open>mode\<close> and written numbers to \<open>probs_4\<close>.
\<close>

lemma round_update_print_columns:
  assumes "round_update sc links = Inr links'" and "r' \<in> set links'"
  shows "r' ''mode'' \<noteq> None \<and> (\<exists>p. r' ''probs_4'' = Some (Num p))"
proof -
  from assms(1) obtain ps vs ts
    where vs: "comprehension (volumes_2_entry sc) (set_column ''probs_4'' links ps) = Inr vs"
      and ts: "comprehension time_2_entry_new
                 (set_column ''volumes_2'' (set_column ''probs_4'' links ps) vs) = Inr ts"
      and new: "links' = set_column ''time_2''
                 (set_column ''volumes_2'' (set_column ''probs_4'' links ps) vs) ts"
    by (auto simp: round_update_def split: sum.splits)
  from assms(2) obtain r2 t
    where r2: "r2 \<in> set (set_column ''volumes_2'' (set_column ''probs_4'' links ps) vs)"
      and r': "r' = r2(''time_2'' \<mapsto> t)"
    unfolding new by (blast dest: set_column_rows)
  from r2 obtain r1 v where r1: "r1 \<in> set (set_column ''probs_4'' links ps)"
    and r2': "r2 = r1(''volumes_2'' \<mapsto> v)"
    by (blast dest: set_column_rows)
  from comprehension_InrD [OF ts r2] have "r2 ''mode'' \<noteq> None"
    by (blast dest: time_2_entry_new_InrD)
  moreover from comprehension_InrD [OF vs r1] obtain p where "r1 ''probs_4'' = Some (Num p)"
    by (blast dest: volumes_2_entry_InrD)
  ultimately show ?thesis
    unfolding r' r2' by simp
qed

lemma mode_mean_ok:
  assumes "\<And>r. r \<in> set links \<Longrightarrow> r ''mode'' \<noteq> None \<and> (\<exists>p. r ''probs_4'' = Some (Num p))"
  shows "\<exists>x. mode_mean m links = Inr x"
proof -
  let ?num = "\<lambda>x. \<exists>a. x = Num a"
  have "\<exists>ms. column ''mode'' links = Inr ms \<and> length ms = length links \<and> list_all (\<lambda>x. True) ms"
    unfolding column_def by (rule comprehension_all) (use assms in fastforce)
  then obtain ms where ms: "column ''mode'' links = Inr ms"
    by auto
  have "\<exists>ps. column ''probs_4'' links = Inr ps \<and> length ps = length links \<and> list_all ?num ps"
    unfolding column_def by (rule comprehension_all) (use assms in fastforce)
  then obtain ps where ps: "column ''probs_4'' links = Inr ps" and ps_num: "list_all ?num ps"
    by auto
  let ?sel = "map snd (filter (\<lambda>(mo, p). mo = Str m) (zip ms ps))"
  have "\<exists>xs. comprehension number ?sel = Inr xs \<and> length xs = length ?sel \<and> list_all (\<lambda>x. True) xs"
  proof (rule comprehension_all)
    fix x assume "x \<in> set ?sel"
    then have "x \<in> set ps"
      by (auto dest: set_zip_rightD)
    with ps_num obtain a where "x = Num a"
      by (auto simp: list_all_iff)
    then show "\<exists>y. number x = Inr y \<and> True"
      by (simp add: number_def)
  qed
  then obtain xs where "comprehension number ?sel = Inr xs"
    by auto
  with ms ps show ?thesis
    by (simp add: mode_mean_def)
qed

lemma round_step:
  assumes "round_update sc links = Inr links'"
  shows "\<exists>l. one_round sc j (links, out) = Inr (links', out @ [l]) \<and> fst l = j"
proof -
  from mode_mean_ok [of links' "''car''"] round_update_print_columns [OF assms]
  obtain car where "mode_mean ''car'' links' = Inr car"
    by blast
  moreover from mode_mean_ok [of links' "''rail''"] round_update_print_columns [OF assms]
  obtain rail where "mode_mean ''rail'' links' = Inr rail"
    by blast
  ultimately have "one_round sc j (links, out) = Inr (links', out @ [(j, car, rail)])"
    using assms by (simp add: one_round_def)
  then show ?thesis
    by fastforce
qed

lemma round_raises:
  "round_update sc links = Inl e \<Longrightarrow> one_round sc j (links, out) = Inl e"
  by (simp add: one_round_def)

lemma for_range_round:
  "case after_rounds sc (n - j) links of
     Inl e \<Rightarrow> for_range j n (one_round sc) (links, out) = Inl e
   | Inr links' \<Rightarrow>
       \<exists>out'. for_range j n (one_round sc) (links, out) = Inr (links', out @ out')
              \<and> map fst out' = [j..<n]"
proof (induction "n - j" arbitrary: j links out)
  case 0
  then show ?case by simp
next
  case (Suc k)
  then have lt: "j < n" and k: "k = n - Suc j" and nj: "n - j = Suc (n - Suc j)"
    by auto
  show ?case
  proof (cases "round_update sc links")
    case (Inl e)
    with lt round_raises [OF Inl, of j out] show ?thesis
      unfolding nj by simp
  next
    case (Inr links1)
    from round_step [OF Inr, of j out] obtain l
      where step: "one_round sc j (links, out) = Inr (links1, out @ [l])" and l: "fst l = j"
      by blast
    show ?thesis
    proof (cases "after_rounds sc (n - Suc j) links1")
      case (Inl e)
      with Suc.hyps(1) [OF k, of links1 "out @ [l]"]
      have "for_range (Suc j) n (one_round sc) (links1, out @ [l]) = Inl e"
        by simp
      with lt step have "for_range j n (one_round sc) (links, out) = Inl e"
        by simp
      with Inl \<open>round_update sc links = Inr links1\<close> show ?thesis
        unfolding nj by simp
    next
      case (Inr links')
      with Suc.hyps(1) [OF k, of links1 "out @ [l]"] obtain out'
        where rest: "for_range (Suc j) n (one_round sc) (links1, out @ [l])
                     = Inr (links', (out @ [l]) @ out')"
          and js: "map fst out' = [Suc j..<n]"
        by auto
      have "for_range j n (one_round sc) (links, out) = Inr (links', out @ (l # out'))"
        using lt step rest by simp
      moreover have "map fst (l # out') = [j..<n]"
        using l js lt by (simp add: upt_conv_Cons)
      ultimately have "\<exists>out'. for_range j n (one_round sc) (links, out) = Inr (links', out @ out')
                          \<and> map fst out' = [j..<n]"
        by blast
      with Inr \<open>round_update sc links = Inr links1\<close> show ?thesis
        unfolding nj by simp
    qed
  qed
qed

lemma after_rounds_ok:
  assumes "well_formed sc links"
  shows "\<exists>links'. after_rounds sc k links = Inr links' \<and> well_formed sc links'"
  using assms
proof (induction k arbitrary: links)
  case 0
  then show ?case by simp
next
  case (Suc k)
  from round_update_ok [OF Suc.prems] obtain links1
    where "round_update sc links = Inr links1" and "well_formed sc links1"
    by blast
  with Suc.IH [of links1] show ?case
    by simp
qed

text \<open>
  C9. On every table the loop does what \<open>n\<close> rounds of updates do, one after the
  other, and nothing ends it early: if one of them raises, the loop raises the same
  exception; otherwise it returns the table after round \<open>n - 1\<close>, having printed
  exactly the \<open>n\<close> lines of the iterations \<open>0, \<dots>, n - 1\<close> (10 in the exercise). On a
  well-formed table no round raises, so the loop returns.
\<close>

theorem iteration_runs_all_rounds:
  "(case after_rounds sc n links of
      Inl e \<Rightarrow> iteration n sc (links, out) = Inl e
    | Inr links' \<Rightarrow>
        \<exists>out'. iteration n sc (links, out) = Inr (links', out @ out')
               \<and> map fst out' = [0..<n])
   \<and> (well_formed sc links \<longrightarrow>
        (\<exists>links'. after_rounds sc n links = Inr links' \<and> well_formed sc links'))"
  using for_range_round [where sc = sc and n = n and j = 0 and links = links and out = out]
    after_rounds_ok [where sc = sc and links = links and k = n]
  unfolding iteration_def by simp

lemma loop_example_well_formed: "well_formed loop_scenario loop_links"
  by (simp add: well_formed_def well_formed_row_def numeric_on_def loop_scenario_def
      loop_links_def car_link_def rail_link_def)

theorem iteration_runs_all_rounds_witness:
  "well_formed loop_scenario loop_links
   \<and> (\<exists>links' out'. iteration exercise_rounds loop_scenario (loop_links, []) = Inr (links', out')
          \<and> map fst out' = [0, 1, 2, 3, 4, 5, 6, 7, 8, 9]
          \<and> after_rounds loop_scenario exercise_rounds loop_links = Inr links'
          \<and> well_formed loop_scenario links')"
proof -
  have js: "[0..<exercise_rounds] = [0, 1, 2, 3, 4, 5, 6, 7, 8, 9]"
    unfolding exercise_rounds_def by (simp add: upt_rec)
  from iteration_runs_all_rounds [where sc = loop_scenario and n = exercise_rounds
      and links = loop_links and out = "[]"] loop_example_well_formed
  obtain links' where after: "after_rounds loop_scenario exercise_rounds loop_links = Inr links'"
    and wf: "well_formed loop_scenario links'"
    and run: "\<exists>out'. iteration exercise_rounds loop_scenario (loop_links, []) = Inr (links', [] @ out')
                  \<and> map fst out' = [0..<exercise_rounds]"
    by auto
  with js loop_example_well_formed show ?thesis
    by auto
qed

end
